theory Spec2Isabelle
  imports Main "HOL-Library.AList"
begin

section \<open>Python strings\<close>

text \<open>
  A Python \<open>str\<close> is modelled as a \<open>string\<close>: a list of characters whose code points
  (\<open>of_char\<close>) lie in the range 0..255. On that range the predicates below are the ones of
  CPython 3: \<open>str.isspace\<close> and the class \<open>\s\<close> of \<open>re\<close> accept the code points
  9..13, 28..31, 32, 133 and 160; \<open>\d\<close> accepts 48..57; \<open>str.lower\<close> moves 65..90 and
  192..222 (but 215) up by 32 and leaves everything else.
\<close>

definition isspace :: "char \<Rightarrow> bool" where
  "isspace c = (let n = (of_char c :: nat)
                in (9 \<le> n \<and> n \<le> 13) \<or> (28 \<le> n \<and> n \<le> 32) \<or> n = 133 \<or> n = 160)"

definition isdigit :: "char \<Rightarrow> bool" where
  "isdigit c = (let n = (of_char c :: nat) in 48 \<le> n \<and> n \<le> 57)"

definition is_az09 :: "char \<Rightarrow> bool" where
  \<comment> \<open>the character class \<open>[a-z0-9]\<close>\<close>
  "is_az09 c = (let n = (of_char c :: nat) in (97 \<le> n \<and> n \<le> 122) \<or> (48 \<le> n \<and> n \<le> 57))"

definition lower_char :: "char \<Rightarrow> char" where
  "lower_char c = (let n = (of_char c :: nat)
                   in if (65 \<le> n \<and> n \<le> 90) \<or> (192 \<le> n \<and> n \<le> 222 \<and> n \<noteq> 215)
                      then char_of (n + 32) else c)"

definition lower :: "string \<Rightarrow> string" where
  \<comment> \<open>\<open>s.lower()\<close>\<close>
  "lower s = map lower_char s"

definition strip_with :: "(char \<Rightarrow> bool) \<Rightarrow> string \<Rightarrow> string" where
  \<comment> \<open>removes the characters satisfying \<open>P\<close> from both ends\<close>
  "strip_with P s = rev (dropWhile P (rev (dropWhile P s)))"

definition strip :: "string \<Rightarrow> string" where
  \<comment> \<open>\<open>s.strip()\<close>\<close>
  "strip s = strip_with isspace s"

definition strip_chars :: "string \<Rightarrow> string \<Rightarrow> string" where
  \<comment> \<open>\<open>s.strip(chars)\<close>\<close>
  "strip_chars chars s = strip_with (\<lambda>c. c \<in> set chars) s"

definition starts_with :: "string \<Rightarrow> string \<Rightarrow> bool" where
  \<comment> \<open>\<open>s.startswith(p)\<close>\<close>
  "starts_with p s = (take (length p) s = p)"

function replace :: "string \<Rightarrow> string \<Rightarrow> string \<Rightarrow> string" where
  \<comment> \<open>\<open>s.replace(old, new)\<close>: the occurrences of \<open>old\<close>, left to right, without overlap\<close>
  "replace old new [] = (if old = [] then new else [])"
| "replace old new (c # cs) =
     (if old = [] then new @ c # replace old new cs
      else if starts_with old (c # cs) then new @ replace old new (drop (length old) (c # cs))
      else c # replace old new cs)"
  by pat_completeness auto
termination
  by (relation "measure (\<lambda>(old, new, s). length s)") auto

fun contains :: "string \<Rightarrow> string \<Rightarrow> bool" where
  \<comment> \<open>\<open>sub in s\<close>\<close>
  "contains sub [] = (sub = [])"
| "contains sub (c # cs) = (starts_with sub (c # cs) \<or> contains sub cs)"

subsection \<open>The regular-expression substitutions of the scripts\<close>

definition remove_special :: "string \<Rightarrow> string" where
  \<comment> \<open>\<open>re.sub(r'[^a-z0-9\s]', '', s)\<close>\<close>
  "remove_special s = filter (\<lambda>c. is_az09 c \<or> isspace c) s"

function sub_ws_runs :: "string \<Rightarrow> string \<Rightarrow> string" where
  \<comment> \<open>\<open>re.sub(r'\s+', rep, s)\<close>: every maximal run of whitespace becomes \<open>rep\<close>\<close>
  "sub_ws_runs rep [] = []"
| "sub_ws_runs rep (c # cs) =
     (if isspace c then rep @ sub_ws_runs rep (dropWhile isspace cs)
      else c # sub_ws_runs rep cs)"
  by pat_completeness auto
termination
  by (relation "measure (\<lambda>(rep, s). length s)") (auto simp: length_dropWhile_le less_Suc_eq_le)

definition match_parens :: "string \<Rightarrow> string option" where
  \<comment> \<open>a match of \<open>\s*\([^)]*\)\<close> at the start of \<open>s\<close>: what follows the match\<close>
  "match_parens s =
     (case dropWhile isspace s of
        [] \<Rightarrow> None
      | c # t \<Rightarrow> if c = CHR ''('' \<and> CHR '')'' \<in> set t
                 then Some (tl (dropWhile (\<lambda>x. x \<noteq> CHR '')'') t)) else None)"

lemma match_parens_shorter: "match_parens s = Some r \<Longrightarrow> length r < length s"
proof -
  assume a: "match_parens s = Some r"
  then obtain c t where ct: "dropWhile isspace s = c # t"
    and r: "r = tl (dropWhile (\<lambda>x. x \<noteq> CHR '')'') t)"
    by (auto simp: match_parens_def split: list.splits if_splits)
  have "length r \<le> length t"
    using r length_dropWhile_le [of "\<lambda>x. x \<noteq> CHR '')''" t] by simp
  moreover have "length (c # t) \<le> length s"
    using ct length_dropWhile_le [of isspace s] by simp
  ultimately show ?thesis by simp
qed

function strip_parens :: "string \<Rightarrow> string" where
  \<comment> \<open>\<open>re.sub(r'\s*\([^)]*\)', '', s)\<close>\<close>
  "strip_parens [] = []"
| "strip_parens (c # cs) =
     (case match_parens (c # cs) of
        Some r \<Rightarrow> strip_parens r
      | None \<Rightarrow> c # strip_parens cs)"
  by pat_completeness auto
termination
  by (relation "measure length") (auto dest: match_parens_shorter)

definition is_sep :: "char \<Rightarrow> bool" where
  \<comment> \<open>the character class \<open>[\s_]\<close>\<close>
  "is_sep c = (isspace c \<or> c = CHR ''_'')"

fun strip_trailing :: "string \<Rightarrow> string" where
  \<comment> \<open>\<open>re.sub(r'[\s_]+\d*$', '', s)\<close> on a string without line breaks: the leftmost
      position from which separators and then digits run to the end\<close>
  "strip_trailing [] = []"
| "strip_trailing (c # cs) =
     (if is_sep c \<and> list_all isdigit (dropWhile is_sep cs) then []
      else c # strip_trailing cs)"

section \<open>Name normalisation and variants (scrape-images-v2.py)\<close>

definition normalize_name :: "string \<Rightarrow> string" where
  "normalize_name name =
     (if name = [] then []
      else sub_ws_runs '' '' (remove_special (strip (lower name))))"

definition suffixes :: "string list" where
  "suffixes = ['' icon'', '' img'', '' image'', '' item'', '' weapon'', '' tome'', '' char'']"

definition raw_variants :: "string \<Rightarrow> string list" where
  \<comment> \<open>the strings added to \<open>variants\<close>, in the order of the \<open>add\<close> calls\<close>
  "raw_variants name =
     [normalize_name name]
     @ map (\<lambda>suffix. normalize_name (replace suffix [] name)) suffixes
     @ [replace '' '' ''_'' (normalize_name name)]
     @ [normalize_name (strip_parens name)]
     @ [normalize_name (replace [CHR 0x27] [] (replace [CHR 0x27, CHR ''s''] ''s'' name))]
     @ [strip_trailing (normalize_name name)]"

definition create_name_variants :: "string \<Rightarrow> string list" where
  \<comment> \<open>a Python set, as the list of its elements without repetition\<close>
  "create_name_variants name =
     remdups (map (strip_chars ''_ '') (filter (\<lambda>v. strip_chars ''_ '' v \<noteq> []) (raw_variants name)))"

fun no_ws_pair :: "string \<Rightarrow> bool" where
  \<comment> \<open>no two whitespace characters stand side by side\<close>
  "no_ws_pair [] = True"
| "no_ws_pair [c] = True"
| "no_ws_pair (c # d # cs) = (\<not> (isspace c \<and> isspace d) \<and> no_ws_pair (d # cs))"

definition plain :: "string \<Rightarrow> bool" where
  \<comment> \<open>letters, digits and single spaces only\<close>
  "plain s = (no_ws_pair s \<and> (\<forall>c \<in> set s. is_az09 c \<or> c = CHR '' ''))"

section \<open>The catalog and the asset directory\<close>

text \<open>
  A catalog file holds a list of entities; each is a JSON object, modelled as the Python
  \<open>dict\<close> that \<open>json.load\<close> builds: an association list in insertion order. The
  catalog format gives \<open>id\<close>, \<open>name\<close> and \<open>image\<close> string values; \<open>get_str\<close> is
  \<open>entity.get(key, "")\<close> for such a field.
\<close>

datatype json = JNull | JBool bool | JNum int | JStr string
  | JArr "json list" | JObj "(string \<times> json) list"

type_synonym entity = "(string \<times> json) list"

definition get_str :: "string \<Rightarrow> entity \<Rightarrow> string" where
  "get_str key e = (case map_of e key of Some (JStr s) \<Rightarrow> s | _ \<Rightarrow> [])"

definition stem :: "string \<Rightarrow> string" where
  \<comment> \<open>\<open>Path.stem\<close> of a file name: the name up to its last dot, unless that dot is the
      first or the last character\<close>
  "stem name =
     (case dropWhile (\<lambda>c. c \<noteq> CHR ''.'') (rev name) of
        [] \<Rightarrow> name
      | dot # front \<Rightarrow>
          if 0 < length front \<and> length front < length name - 1
          then take (length front) name else name)"

text \<open>
  The iteration order of a Python \<open>set\<close> of strings is not fixed by the language (it
  follows the hashes, which change from run to run). Where a script iterates over a set, the
  model applies a parameter \<open>iter\<close> to the list of the elements; a run of the script is a
  run of the model for some \<open>iter\<close> that enumerates exactly the elements it is given.
\<close>

type_synonym set_order = "string list \<Rightarrow> string list"

definition enumerates :: "set_order \<Rightarrow> bool" where
  "enumerates iter = (\<forall>xs. set (iter xs) = set xs)"

section \<open>The entity index (scrape-images-v2.py, load_entities)\<close>

type_synonym index = "(string \<times> string) list"
  \<comment> \<open>\<open>name_to_id\<close>: a \<open>dict\<close> in insertion order\<close>

fun insert_variants :: "string \<Rightarrow> string list \<Rightarrow> index \<Rightarrow> index" where
  \<comment> \<open>\<open>for variant in variants: if variant and variant not in name_to_id: ...\<close>\<close>
  "insert_variants entity_id [] name_to_id = name_to_id"
| "insert_variants entity_id (variant # rest) name_to_id =
     insert_variants entity_id rest
       (if variant \<noteq> [] \<and> variant \<notin> set (map fst name_to_id)
        then name_to_id @ [(variant, entity_id)] else name_to_id)"

definition entity_variants :: "entity \<Rightarrow> string list" where
  \<comment> \<open>the variants of the display name, then those of the id read as a name\<close>
  "entity_variants e =
     create_name_variants (get_str ''name'' e)
     @ create_name_variants (replace ''_'' '' '' (get_str ''id'' e))"

fun load_loop :: "set_order \<Rightarrow> string list \<Rightarrow> entity list \<Rightarrow> index \<times> string list
                  \<Rightarrow> index \<times> string list" where
  "load_loop iter existing [] acc = acc"
| "load_loop iter existing (e # es) (name_to_id, missing_ids) =
     (if get_str ''id'' e \<in> set existing
      then load_loop iter existing es (name_to_id, missing_ids)
      else load_loop iter existing es
             (insert_variants (get_str ''id'' e) (iter (entity_variants e)) name_to_id,
              missing_ids @ [get_str ''id'' e]))"

definition existing_stems :: "string list option \<Rightarrow> string list" where
  \<comment> \<open>the stems of the files of the image directory; nothing when it does not exist\<close>
  "existing_stems img_dir = (case img_dir of None \<Rightarrow> [] | Some names \<Rightarrow> map stem names)"

definition load_entities :: "set_order \<Rightarrow> entity list option \<Rightarrow> string list option
                             \<Rightarrow> index \<times> string list" where
  \<comment> \<open>\<open>catalog\<close>: the entity list of the JSON file, \<open>None\<close> when the file is absent;
      \<open>img_dir\<close>: the file names of the image directory, \<open>None\<close> when it is absent\<close>
  "load_entities iter catalog img_dir =
     (case catalog of
        None \<Rightarrow> ([], [])
      | Some entities \<Rightarrow> load_loop iter (existing_stems img_dir) entities ([], []))"

section \<open>Matching a candidate (scrape-images-v2.py, match_image_to_entity)\<close>

definition exact_tier :: "set_order \<Rightarrow> string \<Rightarrow> index \<Rightarrow> string option" where
  \<comment> \<open>the first loop: the first variant, in iteration order, that is a key\<close>
  "exact_tier iter img_name name_to_id =
     (case find (\<lambda>variant. variant \<in> set (map fst name_to_id)) (iter (create_name_variants img_name)) of
        None \<Rightarrow> None
      | Some variant \<Rightarrow> map_of name_to_id variant)"

definition weak_hit :: "string \<Rightarrow> string \<times> string \<Rightarrow> bool" where
  "weak_hit normalized item =
     (length (fst item) > 3 \<and> length normalized > 3
      \<and> (contains (fst item) normalized \<or> contains normalized (fst item)))"

definition weak_tier :: "string \<Rightarrow> index \<Rightarrow> string option" where
  \<comment> \<open>the second loop: the first item of the index, in insertion order, related to the
      normalised name by containment\<close>
  "weak_tier img_name name_to_id =
     map_option snd (find (weak_hit (normalize_name img_name)) name_to_id)"

definition match_image_to_entity :: "set_order \<Rightarrow> string \<Rightarrow> index \<Rightarrow> string option" where
  "match_image_to_entity iter img_name name_to_id =
     (case exact_tier iter img_name name_to_id of
        Some entity_id \<Rightarrow> Some entity_id
      | None \<Rightarrow> weak_tier img_name name_to_id)"

section \<open>The network and the asset directory\<close>

text \<open>
  The scripts reach the outside world through \<open>urllib.request.urlopen\<close> and through the
  files of one image directory. A \<open>network\<close> says what the \<open>n\<close>-th request of a run
  receives for a URL: \<open>None\<close> when \<open>urlopen\<close> or \<open>read\<close> raises (the scripts catch
  every exception of a request), the body otherwise. The state of a run is the list of the
  requests issued so far and the content of the image directory, file name by file name.
  The pauses (\<open>time.sleep\<close>) and the printed lines are left out; writing a file is taken
  to succeed.
\<close>

type_synonym network = "nat \<Rightarrow> string \<Rightarrow> string option"

datatype request = Fetch string | Download string string
  \<comment> \<open>\<open>fetch_page(url)\<close>; \<open>download_image(url, save_path)\<close>, with the file name of
      \<open>save_path\<close>\<close>

record sys =
  requests :: "request list"
  files :: "(string \<times> string) list"

definition fetch_page :: "network \<Rightarrow> string \<Rightarrow> sys \<Rightarrow> string option \<times> sys" where
  "fetch_page net url s =
     (net (length (requests s)) url, s\<lparr>requests := requests s @ [Fetch url]\<rparr>)"

definition download_image :: "network \<Rightarrow> string \<Rightarrow> string \<Rightarrow> sys \<Rightarrow> bool \<times> sys" where
  \<comment> \<open>\<open>download_image\<close> of scrape-images.py, scrape-images-v2.py and
      fetch-missing-images.py: the three write whatever they receive\<close>
  "download_image net url save_name s =
     (case net (length (requests s)) url of
        None \<Rightarrow> (False, s\<lparr>requests := requests s @ [Download url save_name]\<rparr>)
      | Some data \<Rightarrow>
          (True, s\<lparr>requests := requests s @ [Download url save_name],
                   files := AList.update save_name data (files s)\<rparr>))"

definition download_image_wiki :: "network \<Rightarrow> string \<Rightarrow> string \<Rightarrow> sys \<Rightarrow> bool \<times> sys" where
  \<comment> \<open>\<open>download_image\<close> of scrape-megabonk-wiki.py\<close>
  "download_image_wiki net url save_name s =
     (case net (length (requests s)) url of
        None \<Rightarrow> (False, s\<lparr>requests := requests s @ [Download url save_name]\<rparr>)
      | Some data \<Rightarrow>
          if length data < 500 then (False, s\<lparr>requests := requests s @ [Download url save_name]\<rparr>)
          else if length data = 5320
          then (False, s\<lparr>requests := requests s @ [Download url save_name]\<rparr>)
          else (True, s\<lparr>requests := requests s @ [Download url save_name],
                        files := AList.update save_name data (files s)\<rparr>))"

fun search_ext :: "string list \<Rightarrow> string \<Rightarrow> string option" where
  \<comment> \<open>\<open>re.search(r'\.(e1|e2|...)', url, re.IGNORECASE)\<close>, then \<open>group(1).lower()\<close>: the
      first dot followed by one of the extensions, the earliest alternative first\<close>
  "search_ext exts [] = None"
| "search_ext exts (c # cs) =
     (if c = CHR ''.''
      then (case find (\<lambda>e. starts_with e (lower cs)) exts of
              Some e \<Rightarrow> Some e
            | None \<Rightarrow> search_ext exts cs)
      else search_ext exts cs)"

definition save_name :: "string list \<Rightarrow> string \<Rightarrow> string \<Rightarrow> string" where
  \<comment> \<open>the file name \<open>f"{entity_id}.{ext}"\<close>, \<open>ext\<close> taken from the URL or \<open>png\<close>\<close>
  "save_name exts entity_id img_url =
     entity_id @ ''.'' @ (case search_ext exts img_url of Some e \<Rightarrow> e | None \<Rightarrow> ''png'')"

definition exts_v2 :: "string list" where
  "exts_v2 = [''png'', ''jpg'', ''jpeg'', ''gif'']"

section \<open>The resolution pass over the candidates of a listing (scrape-images-v2.py)\<close>

text \<open>
  The loop over \<open>parser.images\<close> in \<open>scrape_entity_type\<close>. Beside the variables of the
  script (\<open>downloaded\<close>, \<open>matched\<close>) the state keeps \<open>assignments\<close>: the candidate and
  the entity id of every iteration that reached \<open>matched.add(entity_id)\<close>.
\<close>

type_synonym candidate = "string \<times> string"
  \<comment> \<open>\<open>(img_name, img_url)\<close>\<close>

record pass =
  world :: sys
  downloaded :: nat
  matched :: "string list"
  assignments :: "(candidate \<times> string) list"

fun match_loop :: "network \<Rightarrow> set_order \<Rightarrow> index \<Rightarrow> candidate list \<Rightarrow> pass \<Rightarrow> pass" where
  "match_loop net iter name_to_id [] p = p"
| "match_loop net iter name_to_id ((img_name, img_url) # rest) p =
     (case match_image_to_entity iter img_name name_to_id of
        None \<Rightarrow> match_loop net iter name_to_id rest p
      | Some entity_id \<Rightarrow>
          if entity_id \<noteq> [] \<and> entity_id \<notin> set (matched p)
          then (case download_image net img_url (save_name exts_v2 entity_id img_url) (world p) of
                  (True, s) \<Rightarrow>
                    match_loop net iter name_to_id rest
                      (p\<lparr>world := s, downloaded := downloaded p + 1,
                         matched := matched p @ [entity_id],
                         assignments := assignments p @ [((img_name, img_url), entity_id)]\<rparr>)
                | (False, s) \<Rightarrow> match_loop net iter name_to_id rest (p\<lparr>world := s\<rparr>))
          else match_loop net iter name_to_id rest p)"

definition start_pass :: "sys \<Rightarrow> pass" where
  \<comment> \<open>\<open>downloaded = 0\<close>, \<open>matched = set()\<close>\<close>
  "start_pass s = \<lparr>world = s, downloaded = 0, matched = [], assignments = []\<rparr>"

section \<open>A small catalog, for the examples\<close>

definition example_catalog :: "entity list" where
  "example_catalog =
     [[(''id'', JStr ''sword''), (''name'', JStr ''Sword'')],
      [(''id'', JStr ''e2''), (''name'', JStr ''Sword Icon'')]]"

definition example_index :: index where
  \<comment> \<open>the index of \<open>example_catalog\<close> when no image exists yet\<close>
  "example_index = fst (load_entities id (Some example_catalog) None)"

definition example_net :: network where
  \<comment> \<open>a network on which every request succeeds\<close>
  "example_net n url = Some ''data''"


definition no_files :: sys where
  "no_files = \<lparr>requests = [], files = []\<rparr>"

definition tiny_net :: network where
  \<comment> \<open>every request receives a body of 100 bytes\<close>
  "tiny_net n url = Some (replicate 100 (CHR ''x''))"

definition logo_net :: network where
  \<comment> \<open>every request receives a body of 5320 bytes\<close>
  "logo_net n url = Some (replicate 5320 (CHR ''x''))"

definition stale_entity :: entity where
  "stale_entity =
     [(''id'', JStr ''ghost''), (''name'', JStr ''Ghost''),
      (''image'', JStr ''images/items/ghost.png''), (''tier'', JNum 3)]"

definition anvil_entity :: entity where
  "anvil_entity = [(''id'', JStr ''anvil''), (''name'', JStr ''Anvil''), (''tier'', JNum 1)]"

definition example_parse :: "string \<Rightarrow> candidate list" where
  \<comment> \<open>a listing page with one image, of the entity \<open>Sword\<close>\<close>
  "example_parse html =
     [(''Sword'', ''https://static.wikia.nocookie.net/megabonk/images/a/ab/Sword.png/revision/latest'')]"

definition sword_catalog :: "entity list" where
  "sword_catalog = [[(''id'', JStr ''sword''), (''name'', JStr ''Sword'')]]"

definition sword_present :: sys where
  \<comment> \<open>the image of \<open>sword\<close> is on disk when the run starts\<close>
  "sword_present = \<lparr>requests = [], files = [(''sword.png'', ''old image'')]\<rparr>"

section \<open>Metadata sync\<close>

definition available_images :: "string \<Rightarrow> string list \<Rightarrow> (string \<times> string) list" where
  \<comment> \<open>the \<open>dict\<close> \<open>images\<close>, filled file by file in the order of \<open>iterdir()\<close>:
      \<open>images[img_file.stem] = f"images/{entity_type}/{img_file.name}"\<close>\<close>
  "available_images entity_type names =
     fold (\<lambda>name images. AList.update (stem name) (''images/'' @ entity_type @ ''/'' @ name) images)
       names []"

definition get_available_images :: "string \<Rightarrow> string list option \<Rightarrow> (string \<times> string) list" where
  \<comment> \<open>update-json-images.py: no image when the directory does not exist\<close>
  "get_available_images entity_type img_dir =
     (case img_dir of None \<Rightarrow> [] | Some names \<Rightarrow> available_images entity_type names)"

definition set_or_clear_image :: "(string \<times> string) list \<Rightarrow> entity \<Rightarrow> entity" where
  \<comment> \<open>the body of the loop over the entities in \<open>update_json_file\<close>:
      \<open>entity["image"] = images[entity_id]\<close>, or \<open>entity.pop("image", None)\<close>\<close>
  "set_or_clear_image images entity =
     (case map_of images (get_str ''id'' entity) of
        Some path \<Rightarrow> AList.update ''image'' (JStr path) entity
      | None \<Rightarrow> AList.delete ''image'' entity)"

definition update_json_file :: "string \<Rightarrow> entity list option \<Rightarrow> string list option
                                \<Rightarrow> entity list option \<times> nat" where
  \<comment> \<open>update-json-images.py. \<open>catalog\<close>: the entities under \<open>list_key\<close> in the JSON file,
      \<open>None\<close> when the file does not exist (nothing is written then). The result: the
      entities that the file holds afterwards, and the returned count \<open>updated\<close>.\<close>
  "update_json_file entity_type catalog img_dir =
     (case catalog of
        None \<Rightarrow> (None, 0)
      | Some entities \<Rightarrow>
          (Some (map (set_or_clear_image (get_available_images entity_type img_dir)) entities),
           length (filter (\<lambda>entity. get_str ''id'' entity
                              \<in> set (map fst (get_available_images entity_type img_dir))) entities)))"

datatype error = FileNotFoundError | TypeError | IndexError

definition set_image :: "(string \<times> string) list \<Rightarrow> entity \<Rightarrow> entity" where
  \<comment> \<open>the body of the loop over the entities at the end of \<open>main\<close> in
      fetch-missing-images.py: there is no \<open>else\<close> branch\<close>
  "set_image images entity =
     (case map_of images (get_str ''id'' entity) of
        Some path \<Rightarrow> AList.update ''image'' (JStr path) entity
      | None \<Rightarrow> entity)"

definition update_json_after_fetch :: "nat \<Rightarrow> string \<Rightarrow> entity list option \<Rightarrow> string list option
                                       \<Rightarrow> error + entity list option" where
  \<comment> \<open>fetch-missing-images.py, \<open>main\<close>, the block under \<open>if total > 0\<close> (here \<open>total_found\<close>) for one entity
      type: \<open>open\<close> and \<open>iterdir\<close> raise when the file or the directory is absent\<close>
  "update_json_after_fetch total_found entity_type catalog img_dir =
     (if total_found > 0
      then (case catalog of
              None \<Rightarrow> Inl FileNotFoundError
            | Some entities \<Rightarrow>
                (case img_dir of
                   None \<Rightarrow> Inl FileNotFoundError
                 | Some names \<Rightarrow>
                     Inr (Some (map (set_image (available_images entity_type names)) entities))))
      else Inr catalog)"

section \<open>The whole run for one entity type (scrape-images-v2.py, scrape_entity_type)\<close>

text \<open>
  Two library functions are parameters of the model: \<open>parse\<close>, the list \<open>parser.images\<close>
  that \<open>WikiImageParser\<close> collects from a page, and \<open>title\<close>, Python's \<open>str.title\<close>.
  The properties below hold for every choice of them.
\<close>

definition base_url :: string where
  "base_url = ''https://megabonk.fandom.com''"

definition truthy :: "string option \<Rightarrow> bool" where
  \<comment> \<open>the test \<open>if x\<close> on a value that is \<open>None\<close> or a string\<close>
  "truthy x = (case x of None \<Rightarrow> False | Some v \<Rightarrow> v \<noteq> [])"

definition page_url :: "(string \<Rightarrow> string) \<Rightarrow> string \<Rightarrow> string" where
  "page_url title entity_id =
     base_url @ ''/wiki/'' @ replace '' '' ''_'' (title (replace ''_'' '' '' entity_id))"

fun page_image_loop :: "network \<Rightarrow> string \<Rightarrow> candidate list \<Rightarrow> sys \<Rightarrow> bool \<times> sys" where
  \<comment> \<open>the loop over the images of an entity's own page; it stops at the first download
      that succeeds\<close>
  "page_image_loop net entity_id [] s = (False, s)"
| "page_image_loop net entity_id ((img_name, img_url) # rest) s =
     (if contains ''icon'' (lower img_url) \<and> contains ''32'' img_url
      then page_image_loop net entity_id rest s
      else (case download_image net img_url (save_name exts_v2 entity_id img_url) s of
              (True, s') \<Rightarrow> (True, s')
            | (False, s') \<Rightarrow> page_image_loop net entity_id rest s'))"

fun fallback_loop :: "network \<Rightarrow> (string \<Rightarrow> candidate list) \<Rightarrow> (string \<Rightarrow> string)
                      \<Rightarrow> string list \<Rightarrow> pass \<Rightarrow> pass" where
  \<comment> \<open>the loop over \<open>still_missing\<close>\<close>
  "fallback_loop net parse title [] p = p"
| "fallback_loop net parse title (entity_id # rest) p =
     (case fetch_page net (page_url title entity_id) (world p) of
        (html, s) \<Rightarrow>
          if truthy html
          then (case page_image_loop net entity_id (parse (the html)) s of
                  (True, s') \<Rightarrow>
                    fallback_loop net parse title rest
                      (p\<lparr>world := s', downloaded := downloaded p + 1,
                         matched := matched p @ [entity_id]\<rparr>)
                | (False, s') \<Rightarrow> fallback_loop net parse title rest (p\<lparr>world := s'\<rparr>))
          else fallback_loop net parse title rest (p\<lparr>world := s\<rparr>))"

definition scrape_entity_type :: "network \<Rightarrow> set_order \<Rightarrow> (string \<Rightarrow> candidate list)
    \<Rightarrow> (string \<Rightarrow> string) \<Rightarrow> string \<Rightarrow> entity list option \<Rightarrow> sys \<Rightarrow> nat \<times> sys" where
  \<comment> \<open>the image directory of the entity type is \<open>files s\<close>; the result is the returned
      count and the state after the run\<close>
  "scrape_entity_type net iter parse title wiki_path catalog s =
     (case load_entities iter catalog (Some (map fst (files s))) of
        (name_to_id, missing_ids) \<Rightarrow>
          if missing_ids = [] then (0, s)
          else (case fetch_page net (base_url @ wiki_path) s of
                  (html, s1) \<Rightarrow>
                    if \<not> truthy html then (0, s1)
                    else
                      let p = match_loop net iter name_to_id (parse (the html)) (start_pass s1);
                          still_missing = filter (\<lambda>eid. eid \<notin> set (matched p)) missing_ids;
                          p' = (if still_missing \<noteq> [] \<and> length still_missing \<le> 30
                                then fallback_loop net parse title still_missing p else p)
                      in (downloaded p', world p')))"

section \<open>The first scraper (scrape-images.py)\<close>

definition normalize_name_v1 :: "string \<Rightarrow> string option" where
  \<comment> \<open>\<open>normalize_name\<close> of scrape-images.py: \<open>None\<close> for an empty name, whitespace
      runs become underscores\<close>
  "normalize_name_v1 name =
     (if name = [] then None
      else Some (sub_ws_runs ''_'' (remove_special (strip (lower name)))))"

definition ends_with :: "string \<Rightarrow> string \<Rightarrow> bool" where
  "ends_with x s = (length x \<le> length s \<and> drop (length s - length x) s = x)"

definition remove_image_suffix :: "string \<Rightarrow> string" where
  \<comment> \<open>\<open>re.sub(r'_(icon|img|image)$', '', s)\<close> on a string without line breaks\<close>
  "remove_image_suffix s =
     (case find (\<lambda>x. ends_with x s) [''_icon'', ''_img'', ''_image''] of
        Some x \<Rightarrow> take (length s - length x) s
      | None \<Rightarrow> s)"

definition remove_trailing_underscores :: "string \<Rightarrow> string" where
  \<comment> \<open>\<open>re.sub(r'_+$', '', s)\<close> on a string without line breaks\<close>
  "remove_trailing_underscores s = rev (dropWhile (\<lambda>c. c = CHR ''_'') (rev s))"

fun remove_trailing_number :: "string \<Rightarrow> string" where
  \<comment> \<open>\<open>re.sub(r'_\d+$', '', s)\<close> on a string without line breaks\<close>
  "remove_trailing_number [] = []"
| "remove_trailing_number (c # cs) =
     (if c = CHR ''_'' \<and> cs \<noteq> [] \<and> list_all isdigit cs then []
      else c # remove_trailing_number cs)"

fun load_names_loop :: "entity list \<Rightarrow> index \<Rightarrow> error + index" where
  \<comment> \<open>the loop of \<open>load_entity_names\<close>. For an entity with an empty name
      \<open>normalize_name\<close> returns \<open>None\<close> and \<open>re.sub\<close> raises \<open>TypeError\<close>.\<close>
  "load_names_loop [] name_to_id = Inr name_to_id"
| "load_names_loop (entity # rest) name_to_id =
     (case normalize_name_v1 (get_str ''name'' entity) of
        None \<Rightarrow> Inl TypeError
      | Some normalized \<Rightarrow>
          load_names_loop rest
            (AList.update (remove_image_suffix normalized) (get_str ''id'' entity)
               (AList.update (get_str ''id'' entity) (get_str ''id'' entity)
                  (AList.update normalized (get_str ''id'' entity) name_to_id))))"

definition load_entity_names :: "entity list option \<Rightarrow> error + index" where
  "load_entity_names catalog =
     (case catalog of None \<Rightarrow> Inr [] | Some entities \<Rightarrow> load_names_loop entities [])"

definition match_v1 :: "index \<Rightarrow> string \<Rightarrow> error + string option" where
  \<comment> \<open>the three lookups at the head of the loop body of \<open>scrape_entity_type\<close>\<close>
  "match_v1 name_to_id img_name =
     (case normalize_name_v1 img_name of
        None \<Rightarrow> Inl TypeError
      | Some normalized \<Rightarrow>
          let first = map_of name_to_id normalized;
              second = (if truthy first then first
                        else map_of name_to_id
                               (remove_trailing_number (remove_trailing_underscores normalized)));
              third = (if truthy second then second
                       else map_of name_to_id (replace '' '' ''_'' (lower img_name)))
          in Inr third)"

fun download_loop_v1 :: "network \<Rightarrow> index \<Rightarrow> candidate list \<Rightarrow> nat \<Rightarrow> string list \<Rightarrow> sys
                         \<Rightarrow> (error + nat) \<times> sys" where
  \<comment> \<open>the loop over \<open>parser.images\<close>; \<open>n_downloaded\<close> is \<open>downloaded\<close>, \<open>matched_ids\<close> the keys of the \<open>dict\<close> \<open>matched\<close>\<close>
  "download_loop_v1 net name_to_id [] n_downloaded matched_ids s = (Inr n_downloaded, s)"
| "download_loop_v1 net name_to_id ((img_name, img_url) # rest) n_downloaded matched_ids s =
     (case match_v1 name_to_id img_name of
        Inl e \<Rightarrow> (Inl e, s)
      | Inr entity_id \<Rightarrow>
          if truthy entity_id \<and> the entity_id \<notin> set matched_ids
          then (case download_image net img_url (save_name exts_v2 (the entity_id) img_url) s of
                  (True, s') \<Rightarrow>
                    download_loop_v1 net name_to_id rest (n_downloaded + 1)
                      (matched_ids @ [the entity_id]) s'
                | (False, s') \<Rightarrow> download_loop_v1 net name_to_id rest n_downloaded matched_ids s')
          else download_loop_v1 net name_to_id rest n_downloaded matched_ids s)"

definition scrape_entity_type_v1 :: "network \<Rightarrow> (string \<Rightarrow> candidate list) \<Rightarrow> string
    \<Rightarrow> entity list option \<Rightarrow> sys \<Rightarrow> (error + nat) \<times> sys" where
  \<comment> \<open>no step of it looks at the files that exist\<close>
  "scrape_entity_type_v1 net parse wiki_path catalog s =
     (case load_entity_names catalog of
        Inl e \<Rightarrow> (Inl e, s)
      | Inr name_to_id \<Rightarrow>
          (case fetch_page net (base_url @ wiki_path) s of
             (html, s1) \<Rightarrow>
               if \<not> truthy html then (Inr 0, s1)
               else download_loop_v1 net name_to_id (parse (the html)) 0 [] s1))"

definition issued_for :: "(string \<Rightarrow> string) \<Rightarrow> string \<Rightarrow> request \<Rightarrow> bool" where
  \<comment> \<open>the requests that \<open>scrape_entity_type\<close> issues on behalf of one entity: the fetch
      of its own page, a download into a file named after it\<close>
  "issued_for title entity_id r =
     (case r of
        Fetch url \<Rightarrow> url = page_url title entity_id
      | Download url name \<Rightarrow> name = save_name exts_v2 entity_id url)"

section \<open>The fallback fetcher (fetch-missing-images.py)\<close>

text \<open>
  \<open>parse\<close> is here the list \<open>parser.images\<close> of URLs that \<open>ImageExtractor\<close> collects
  from a page. The three loops of \<open>main\<close> (items, weapons, tomes) are the same code over
  three tables and three directories; \<open>missing_loop\<close> is that loop for any table.
\<close>

fun first_download :: "network \<Rightarrow> string \<Rightarrow> (string \<Rightarrow> bool) \<Rightarrow> string list \<Rightarrow> sys \<Rightarrow> bool \<times> sys" where
  \<comment> \<open>\<open>for img_url in parser.images\<close>: the first URL that passes the test \<open>ok\<close> and whose
      download succeeds ends the loop\<close>
  "first_download net entity_id ok [] s = (False, s)"
| "first_download net entity_id ok (img_url # rest) s =
     (if ok img_url
      then (case download_image net img_url (save_name exts_v2 entity_id img_url) s of
              (True, s') \<Rightarrow> (True, s')
            | (False, s') \<Rightarrow> first_download net entity_id ok rest s')
      else first_download net entity_id ok rest s)"

fun try_fetch_from_wiki :: "network \<Rightarrow> (string \<Rightarrow> string list) \<Rightarrow> string \<Rightarrow> string list \<Rightarrow> sys
                            \<Rightarrow> bool \<times> sys" where
  "try_fetch_from_wiki net parse entity_id [] s = (False, s)"
| "try_fetch_from_wiki net parse entity_id (page_name # rest) s =
     (case fetch_page net (base_url @ ''/wiki/'' @ page_name) s of
        (html, s1) \<Rightarrow>
          if truthy html
          then (case first_download net entity_id (\<lambda>img_url. img_url \<noteq> []) (parse (the html)) s1 of
                  (True, s2) \<Rightarrow> (True, s2)
                | (False, s2) \<Rightarrow> try_fetch_from_wiki net parse entity_id rest s2)
          else try_fetch_from_wiki net parse entity_id rest s1)"

definition file_page :: "network \<Rightarrow> (string \<Rightarrow> string list) \<Rightarrow> string \<Rightarrow> (string \<Rightarrow> bool)
                         \<Rightarrow> string \<Rightarrow> sys \<Rightarrow> bool \<times> sys" where
  \<comment> \<open>one attempt of \<open>search_in_gallery\<close>: a page of the \<open>File:\<close> namespace\<close>
  "file_page net parse entity_id ok url s =
     (case fetch_page net url s of
        (html, s1) \<Rightarrow>
          if truthy html then first_download net entity_id ok (parse (the html)) s1
          else (False, s1))"

fun gallery_loop :: "network \<Rightarrow> (string \<Rightarrow> string list) \<Rightarrow> string \<Rightarrow> string list \<Rightarrow> sys
                     \<Rightarrow> bool \<times> sys" where
  \<comment> \<open>\<open>for term in search_terms\<close> (here \<open>search_term\<close>): the \<open>.png\<close> page, where only the URLs that contain
      the term count, then the \<open>.jpg\<close> page\<close>
  "gallery_loop net parse entity_id [] s = (False, s)"
| "gallery_loop net parse entity_id (search_term # rest) s =
     (case file_page net parse entity_id (\<lambda>img_url. contains (lower search_term) (lower img_url))
             (base_url @ ''/wiki/File:'' @ search_term @ ''.png'') s of
        (True, s1) \<Rightarrow> (True, s1)
      | (False, s1) \<Rightarrow>
          (case file_page net parse entity_id (\<lambda>img_url. True)
                  (base_url @ ''/wiki/File:'' @ search_term @ ''.jpg'') s1 of
             (True, s2) \<Rightarrow> (True, s2)
           | (False, s2) \<Rightarrow> gallery_loop net parse entity_id rest s2))"

definition search_in_gallery :: "network \<Rightarrow> (string \<Rightarrow> string list) \<Rightarrow> string \<Rightarrow> string \<Rightarrow> sys
                                 \<Rightarrow> bool \<times> sys" where
  "search_in_gallery net parse entity_name entity_id s =
     gallery_loop net parse entity_id
       [replace '' '' ''_'' entity_name,
        replace '' '' [] entity_name,
        replace '' '' ''_'' (replace [CHR 0x27] [] entity_name)] s"

definition glob_existing :: "string \<Rightarrow> sys \<Rightarrow> bool" where
  \<comment> \<open>\<open>list(output_dir.glob(f"{entity_id}.*"))\<close> is not empty, for an id without
      wildcard characters (the ids of the three tables have none)\<close>
  "glob_existing entity_id s = (\<exists>name \<in> set (map fst (files s)). starts_with (entity_id @ ''.'') name)"

fun missing_loop :: "network \<Rightarrow> (string \<Rightarrow> string list) \<Rightarrow> (string \<times> string list) list \<Rightarrow> nat
                     \<Rightarrow> sys \<Rightarrow> (error + nat) \<times> sys" where
  \<comment> \<open>\<open>for entity_id, page_names in MISSING_ITEMS.items()\<close>; \<open>found\<close> is the variable
      \<open>total\<close>. \<open>page_names[0]\<close> raises \<open>IndexError\<close> on an empty list.\<close>
  "missing_loop net parse [] found s = (Inr found, s)"
| "missing_loop net parse ((entity_id, page_names) # rest) found s =
     (if glob_existing entity_id s then missing_loop net parse rest found s
      else (case try_fetch_from_wiki net parse entity_id page_names s of
              (True, s1) \<Rightarrow> missing_loop net parse rest (found + 1) s1
            | (False, s1) \<Rightarrow>
                (case page_names of
                   [] \<Rightarrow> (Inl IndexError, s1)
                 | first_page # others \<Rightarrow>
                     (case search_in_gallery net parse (replace ''_'' '' '' first_page) entity_id s1 of
                        (True, s2) \<Rightarrow> missing_loop net parse rest (found + 1) s2
                      | (False, s2) \<Rightarrow> missing_loop net parse rest found s2))))"

section \<open>Properties of normalisation and variants\<close>

lemma strip_with_last: "strip_with P s \<noteq> [] \<Longrightarrow> \<not> P (last (strip_with P s))"
  unfolding strip_with_def by (simp add: last_rev hd_dropWhile)

lemma strip_with_prefix: "\<exists>zs. dropWhile P s = strip_with P s @ zs"
proof -
  have "rev (dropWhile P s) = takeWhile P (rev (dropWhile P s)) @ dropWhile P (rev (dropWhile P s))"
    by simp
  then have "dropWhile P s = rev (takeWhile P (rev (dropWhile P s)) @ dropWhile P (rev (dropWhile P s)))"
    by (metis rev_rev_ident)
  then show ?thesis unfolding strip_with_def by (metis rev_append)
qed

lemma strip_with_hd: "strip_with P s \<noteq> [] \<Longrightarrow> \<not> P (hd (strip_with P s))"
proof -
  assume ne: "strip_with P s \<noteq> []"
  obtain zs where zs: "dropWhile P s = strip_with P s @ zs"
    using strip_with_prefix by blast
  with ne have "dropWhile P s \<noteq> []" by auto
  then have "\<not> P (hd (dropWhile P s))" by (rule hd_dropWhile)
  with zs ne show ?thesis by simp
qed

lemma mem_dropWhile: "x \<in> set xs \<Longrightarrow> \<not> P x \<Longrightarrow> x \<in> set (dropWhile P xs)"
  by (induction xs) auto

lemma mem_strip_with: "x \<in> set s \<Longrightarrow> \<not> P x \<Longrightarrow> x \<in> set (strip_with P s)"
  unfolding strip_with_def by (simp add: mem_dropWhile)

lemma az09_not_space: "is_az09 c \<Longrightarrow> \<not> isspace c"
  by (auto simp: is_az09_def isspace_def Let_def)

lemma az09_not_sepchar: "is_az09 c \<Longrightarrow> c \<notin> set ''_ ''"
  by (auto simp: is_az09_def Let_def)

lemma mem_sub_ws_runs: "x \<in> set s \<Longrightarrow> \<not> isspace x \<Longrightarrow> x \<in> set (sub_ws_runs rep s)"
  by (induction rep s rule: sub_ws_runs.induct) (auto simp: mem_dropWhile)

lemma mem_normalize_name:
  assumes "c \<in> set name" and "is_az09 (lower_char c)"
  shows "lower_char c \<in> set (normalize_name name)"
proof -
  from assms(1) have ne: "name \<noteq> []" by auto
  have ns: "\<not> isspace (lower_char c)" using assms(2) by (rule az09_not_space)
  from assms(1) have "lower_char c \<in> set (lower name)" by (simp add: lower_def)
  then have "lower_char c \<in> set (strip (lower name))"
    unfolding strip_def using ns by (rule mem_strip_with)
  then have "lower_char c \<in> set (remove_special (strip (lower name)))"
    using assms(2) by (simp add: remove_special_def)
  then have "lower_char c \<in> set (sub_ws_runs '' '' (remove_special (strip (lower name))))"
    using ns by (rule mem_sub_ws_runs)
  with ne show ?thesis by (simp add: normalize_name_def)
qed


lemma no_ws_pair_append: "no_ws_pair (xs @ ys) \<Longrightarrow> no_ws_pair xs \<and> no_ws_pair ys"
proof (induction xs rule: no_ws_pair.induct)
  case 1
  then show ?case by simp
next
  case (2 c)
  then show ?case by (cases ys) auto
next
  case (3 c d cs)
  then show ?case by auto
qed

lemma sub_ws_runs_head:
  "sub_ws_runs '' '' s \<noteq> [] \<Longrightarrow> \<not> isspace (hd s) \<Longrightarrow> \<not> isspace (hd (sub_ws_runs '' '' s))"
  by (cases s) auto

lemma no_ws_pair_Cons:
  "no_ws_pair (c # cs) \<longleftrightarrow> no_ws_pair cs \<and> (cs \<noteq> [] \<longrightarrow> \<not> (isspace c \<and> isspace (hd cs)))"
  by (cases cs) auto

lemma no_ws_pair_sub_ws_runs: "no_ws_pair (sub_ws_runs '' '' s)"
proof (induction "'' ''" s rule: sub_ws_runs.induct)
  case 1
  show ?case by simp
next
  case (2 c cs)
  show ?case
  proof (cases "isspace c")
    case True
    let ?r = "dropWhile isspace cs"
    have "sub_ws_runs '' '' ?r \<noteq> [] \<longrightarrow> \<not> isspace (hd (sub_ws_runs '' '' ?r))"
    proof
      assume ne: "sub_ws_runs '' '' ?r \<noteq> []"
      then have "?r \<noteq> []" by (metis sub_ws_runs.simps(1))
      then have "\<not> isspace (hd ?r)" by (rule hd_dropWhile)
      with ne show "\<not> isspace (hd (sub_ws_runs '' '' ?r))" by (rule sub_ws_runs_head)
    qed
    with True 2 show ?thesis by (simp add: no_ws_pair_Cons)
  next
    case False
    with 2 show ?thesis by (simp add: no_ws_pair_Cons)
  qed
qed

lemma sub_ws_runs_fixed_gen:
  "rep = '' '' \<Longrightarrow> no_ws_pair s \<Longrightarrow> \<forall>c \<in> set s. isspace c \<longrightarrow> c = CHR '' ''
   \<Longrightarrow> sub_ws_runs rep s = s"
proof (induction rep s rule: sub_ws_runs.induct)
  case (1 rep)
  show ?case by simp
next
  case (2 rep c cs)
  from "2.prems"(2) have tail: "no_ws_pair cs" by (simp add: no_ws_pair_Cons)
  show ?case
  proof (cases "isspace c")
    case True
    with "2.prems" have c: "c = CHR '' ''" by simp
    from True "2.prems"(2) have "cs \<noteq> [] \<longrightarrow> \<not> isspace (hd cs)" by (simp add: no_ws_pair_Cons)
    then have d: "dropWhile isspace cs = cs" by (cases cs) auto
    from "2.IH"(1) [OF True "2.prems"(1)] tail "2.prems"(3) d have "sub_ws_runs rep cs = cs" by simp
    with True c d "2.prems"(1) show ?thesis by simp
  next
    case False
    with "2.IH"(2) [OF False "2.prems"(1)] tail "2.prems"(3) show ?thesis by simp
  qed
qed

lemma sub_ws_runs_fixed:
  "no_ws_pair s \<Longrightarrow> \<forall>c \<in> set s. isspace c \<longrightarrow> c = CHR '' '' \<Longrightarrow> sub_ws_runs '' '' s = s"
  by (rule sub_ws_runs_fixed_gen) simp_all

lemma set_sub_ws_runs:
  "set (sub_ws_runs '' '' s) \<subseteq> {c \<in> set s. \<not> isspace c} \<union> {CHR '' ''}"
proof (induction "'' ''" s rule: sub_ws_runs.induct)
  case 1
  show ?case by simp
next
  case (2 c cs)
  have "set (dropWhile isspace cs) \<subseteq> set cs" by (rule set_dropWhileD [THEN subsetI])
  with 2 show ?case by (cases "isspace c") auto
qed

lemma plain_normalize_name: "plain (normalize_name name)"
proof (cases "name = []")
  case True
  then show ?thesis by (simp add: normalize_name_def plain_def)
next
  case False
  let ?r = "remove_special (strip (lower name))"
  have "\<forall>c \<in> set (sub_ws_runs '' '' ?r). is_az09 c \<or> c = CHR '' ''"
  proof
    fix c assume "c \<in> set (sub_ws_runs '' '' ?r)"
    with set_sub_ws_runs [of ?r] have "(c \<in> set ?r \<and> \<not> isspace c) \<or> c = CHR '' ''" by auto
    then show "is_az09 c \<or> c = CHR '' ''" by (auto simp: remove_special_def)
  qed
  with False show ?thesis by (simp add: normalize_name_def plain_def no_ws_pair_sub_ws_runs)
qed

lemma plain_chars:
  assumes "plain s" and "c \<in> set s"
  shows "lower_char c = c" and "isspace c \<longleftrightarrow> c = CHR '' ''" and "is_az09 c \<or> isspace c"
proof -
  from assms have c: "is_az09 c \<or> c = CHR '' ''" by (simp add: plain_def)
  then show "lower_char c = c" by (auto simp: is_az09_def lower_char_def Let_def)
  from c show "isspace c \<longleftrightarrow> c = CHR '' ''" by (auto simp: is_az09_def isspace_def Let_def)
  from c show "is_az09 c \<or> isspace c" by (auto simp: isspace_def)
qed

lemma plain_strip: "plain s \<Longrightarrow> plain (strip s)"
proof -
  assume p: "plain s"
  obtain zs where zs: "dropWhile isspace s = strip s @ zs"
    unfolding strip_def using strip_with_prefix by blast
  have s: "s = takeWhile isspace s @ strip s @ zs" using zs by (metis takeWhile_dropWhile_id)
  from p have "no_ws_pair (takeWhile isspace s @ strip s @ zs)" using s by (simp add: plain_def)
  then have "no_ws_pair (strip s)" by (blast dest: no_ws_pair_append)
  moreover have "set (strip s) \<subseteq> set s" using s by (metis Un_upper1 Un_upper2 set_append subset_trans)
  ultimately show ?thesis using p by (auto simp: plain_def)
qed

lemma normalize_name_plain: "plain s \<Longrightarrow> normalize_name s = strip s"
proof (cases "s = []")
  case True
  then show ?thesis by (simp add: normalize_name_def strip_def strip_with_def)
next
  case False
  assume p: "plain s"
  have l: "lower s = s" unfolding lower_def using plain_chars(1) [OF p] by (simp add: map_idI)
  have ps: "plain (strip s)" using p by (rule plain_strip)
  have r: "remove_special (strip s) = strip s"
    unfolding remove_special_def using plain_chars(3) [OF ps] by simp
  have "sub_ws_runs '' '' (strip s) = strip s"
  proof (rule sub_ws_runs_fixed)
    show "no_ws_pair (strip s)" using ps by (simp add: plain_def)
    show "\<forall>c \<in> set (strip s). isspace c \<longrightarrow> c = CHR '' ''" using plain_chars(2) [OF ps] by simp
  qed
  with False l r show ?thesis by (simp add: normalize_name_def)
qed

lemma dropWhile_head: "xs \<noteq> [] \<Longrightarrow> \<not> P (hd xs) \<Longrightarrow> dropWhile P xs = xs"
  by (cases xs) auto

lemma strip_with_idem: "strip_with P (strip_with P s) = strip_with P s"
proof (cases "strip_with P s = []")
  case True
  show ?thesis unfolding True by (simp add: strip_with_def)
next
  case False
  let ?t = "strip_with P s"
  from False have h: "\<not> P (hd ?t)" and l: "\<not> P (last ?t)"
    by (rule strip_with_hd, rule strip_with_last)
  from False h have a: "dropWhile P ?t = ?t" by (rule dropWhile_head)
  from False have "rev ?t \<noteq> []" by simp
  moreover from False l have "\<not> P (hd (rev ?t))" by (simp add: hd_rev)
  ultimately have b: "dropWhile P (rev ?t) = rev ?t" by (rule dropWhile_head)
  show ?thesis unfolding strip_with_def [of P ?t] a b by simp
qed

lemma normalize_name_stable_after_two:
  "normalize_name (normalize_name (normalize_name name)) = normalize_name (normalize_name name)"
proof -
  let ?y = "normalize_name name"
  have y: "plain ?y" by (rule plain_normalize_name)
  then have n1: "normalize_name ?y = strip ?y" by (rule normalize_name_plain)
  have "plain (strip ?y)" using y by (rule plain_strip)
  then have "normalize_name (strip ?y) = strip (strip ?y)" by (rule normalize_name_plain)
  also have "\<dots> = strip ?y" by (simp add: strip_def strip_with_idem)
  finally show ?thesis unfolding n1 .
qed

text \<open>
  Claim C2 (idempotence of \<open>normalize_name\<close>) fails on the code. \<open>normalize_name\<close> calls
  \<open>strip()\<close> before it removes the special characters, so a space that stood behind a
  leading special character (or before a trailing one) is left at the end of the result:
  \<open>"! a"\<close> is normalised to \<open>" a"\<close>, which is not trimmed, and normalising again gives
  \<open>"a"\<close>. Only the second application trims what is left, and from there on the result
  is stable (\<open>normalize_name_stable_after_two\<close>).
\<close>

theorem normalize_name_not_idempotent:
  "normalize_name ''! a'' = '' a''
   \<and> normalize_name (normalize_name ''! a'') = ''a''
   \<and> normalize_name (normalize_name ''! a'') \<noteq> normalize_name ''! a''"
  by code_simp

text \<open>
  Claim C3 as stated (a non-empty name has a non-empty variant set) fails: every variant of
  \<open>"!"\<close> is blank and is discarded by the final filter.
\<close>

theorem variants_empty_counterexample:
  "''!'' \<noteq> [] \<and> create_name_variants ''!'' = []"
  by code_simp

text \<open>
  Claim C3, amended: a name that holds at least one ASCII letter or digit (a character
  that \<open>lower()\<close> takes into \<open>[a-z0-9]\<close>) has a non-empty variant set.
\<close>

theorem variants_nonempty:
  assumes "\<exists>c \<in> set name. is_az09 (lower_char c)"
  shows "create_name_variants name \<noteq> []"
proof -
  from assms obtain c where c: "c \<in> set name" "is_az09 (lower_char c)" by blast
  then have "lower_char c \<in> set (normalize_name name)" by (rule mem_normalize_name)
  then have "lower_char c \<in> set (strip_chars ''_ '' (normalize_name name))"
    unfolding strip_chars_def using az09_not_sepchar [OF c(2)] by (rule mem_strip_with)
  then have "strip_chars ''_ '' (normalize_name name) \<noteq> []" by auto
  moreover have "normalize_name name \<in> set (raw_variants name)"
    by (simp add: raw_variants_def)
  ultimately have "strip_chars ''_ '' (normalize_name name) \<in> set (create_name_variants name)"
    by (auto simp: create_name_variants_def)
  then show ?thesis by auto
qed

theorem variants_nonempty_witness:
  "(\<exists>c \<in> set ''Anvil''. is_az09 (lower_char c)) \<and> create_name_variants ''Anvil'' \<noteq> []"
proof -
  have h: "\<exists>c \<in> set ''Anvil''. is_az09 (lower_char c)"
    by (simp add: is_az09_def lower_char_def)
  from h variants_nonempty [OF h] show ?thesis by blast
qed

text \<open>
  Claim C9: every string of the set that \<open>create_name_variants\<close> returns is non-empty and
  neither starts nor ends with a space or an underscore.
\<close>

theorem variants_trimmed:
  assumes "v \<in> set (create_name_variants name)"
  shows "v \<noteq> [] \<and> hd v \<notin> {CHR '' '', CHR ''_''} \<and> last v \<notin> {CHR '' '', CHR ''_''}"
proof -
  from assms obtain r where v: "v = strip_chars ''_ '' r" and ne: "v \<noteq> []"
    by (auto simp: create_name_variants_def)
  from ne have "\<not> (hd v \<in> set ''_ '')" and "\<not> (last v \<in> set ''_ '')"
    unfolding v strip_chars_def by (rule strip_with_hd, rule strip_with_last)
  with ne show ?thesis by auto
qed

theorem variants_trimmed_witness:
  "''big bonk'' \<in> set (create_name_variants ''Big Bonk 2'')
   \<and> ''big bonk'' \<noteq> [] \<and> hd ''big bonk'' \<notin> {CHR '' '', CHR ''_''}
   \<and> last ''big bonk'' \<notin> {CHR '' '', CHR ''_''}"
proof -
  have h: "''big bonk'' \<in> set (create_name_variants ''Big Bonk 2'')"
    by code_simp
  from h variants_trimmed [OF h] show ?thesis by blast
qed

section \<open>Properties of the index and of matching\<close>





lemma load_loop_missing:
  "snd (load_loop iter existing es (idx, ms)) =
     ms @ filter (\<lambda>i. i \<notin> set existing) (map (get_str ''id'') es)"
  by (induction es arbitrary: idx ms) auto



lemma example_index_value:
  "example_index = [(''sword'', ''sword''), (''sword_icon'', ''e2''),
                    (''sword icon'', ''e2''), (''e2'', ''e2'')]"
  by code_simp

lemma variants_sword_icon:
  "create_name_variants ''sword icon'' = [''sword'', ''sword_icon'', ''sword icon'']"
  by code_simp

lemma exact_tier_hit:
  assumes "enumerates iter" and "v \<in> set (create_name_variants img_name)"
    and "map_of name_to_id v = Some a"
  shows "\<exists>v' \<in> set (create_name_variants img_name). \<exists>b.
           map_of name_to_id v' = Some b \<and> exact_tier iter img_name name_to_id = Some b"
proof -
  let ?key = "\<lambda>variant. variant \<in> set (map fst name_to_id)"
  have it: "set (iter (create_name_variants img_name)) = set (create_name_variants img_name)"
    using assms(1) by (simp add: enumerates_def)
  from assms(3) have "?key v" by (metis map_of_eq_None_iff option.distinct(1) set_map)
  with assms(2) it have "find ?key (iter (create_name_variants img_name)) \<noteq> None"
    by (auto simp: find_None_iff)
  then obtain v' where f: "find ?key (iter (create_name_variants img_name)) = Some v'"
    by blast
  then have mem: "v' \<in> set (iter (create_name_variants img_name))" and key: "?key v'"
    by (auto simp: find_Some_iff)
  from key obtain b where b: "map_of name_to_id v' = Some b"
    by (metis map_of_eq_None_iff not_Some_eq set_map)
  from f b have "exact_tier iter img_name name_to_id = Some b"
    by (simp add: exact_tier_def)
  with mem it b show ?thesis by blast
qed

lemma weak_tier_only_without_exact_hit:
  assumes "enumerates iter"
  shows "exact_tier iter img_name name_to_id = None
         \<longleftrightarrow> (\<forall>v \<in> set (create_name_variants img_name). map_of name_to_id v = None)"
proof
  assume n: "exact_tier iter img_name name_to_id = None"
  show "\<forall>v \<in> set (create_name_variants img_name). map_of name_to_id v = None"
  proof (rule ccontr)
    assume "\<not> ?thesis"
    then obtain v a where "v \<in> set (create_name_variants img_name)" "map_of name_to_id v = Some a"
      by auto
    from exact_tier_hit [OF assms this] n show False by auto
  qed
next
  assume a: "\<forall>v \<in> set (create_name_variants img_name). map_of name_to_id v = None"
  have it: "set (iter (create_name_variants img_name)) = set (create_name_variants img_name)"
    using assms by (simp add: enumerates_def)
  have "find (\<lambda>variant. variant \<in> set (map fst name_to_id)) (iter (create_name_variants img_name)) = None"
    using a it by (auto simp: find_None_iff map_of_eq_None_iff)
  then show "exact_tier iter img_name name_to_id = None" by (simp add: exact_tier_def)
qed

text \<open>
  Claim C5 as stated (a variant that is a key for entry A makes the resolver return A)
  fails when two variants of one candidate are keys of different entries: the candidate
  \<open>"sword icon"\<close> has the variants \<open>"sword"\<close>, a key of entity \<open>sword\<close>, and
  \<open>"sword icon"\<close>, a key of entity \<open>e2\<close>. The resolver returns the entry of the variant
  that the iteration over the set meets first, so for one of the two entries the claim
  fails whatever the order: \<open>sword\<close> in one order, \<open>e2\<close> in the reverse order.
\<close>

theorem exact_tier_ambiguous_counterexample:
  "''sword'' \<in> set (create_name_variants ''sword icon'')
   \<and> map_of example_index ''sword'' = Some ''sword''
   \<and> ''sword icon'' \<in> set (create_name_variants ''sword icon'')
   \<and> map_of example_index ''sword icon'' = Some ''e2''
   \<and> match_image_to_entity id ''sword icon'' example_index = Some ''sword''
   \<and> match_image_to_entity rev ''sword icon'' example_index = Some ''e2''"
  by (simp add: example_index_value variants_sword_icon match_image_to_entity_def exact_tier_def)

text \<open>
  Claim C5, amended: when some variant of the candidate's name is a key of the index, the
  resolver returns the entry of a variant that is a key (the first one in iteration
  order), which is the result of the exact tier alone: the weak tier is not consulted, so
  an entry that only the containment heuristic reaches is never returned. When all the
  variants that are keys map to the same entry A, the resolver returns A.
\<close>

theorem exact_tier_priority:
  assumes "enumerates iter" and "v \<in> set (create_name_variants img_name)"
    and "map_of name_to_id v = Some a"
  shows "(\<exists>v' \<in> set (create_name_variants img_name). \<exists>b.
            map_of name_to_id v' = Some b \<and> match_image_to_entity iter img_name name_to_id = Some b)
         \<and> match_image_to_entity iter img_name name_to_id = exact_tier iter img_name name_to_id
         \<and> ((\<forall>v' \<in> set (create_name_variants img_name). \<forall>b. map_of name_to_id v' = Some b \<longrightarrow> b = a)
              \<longrightarrow> match_image_to_entity iter img_name name_to_id = Some a)"
proof -
  from exact_tier_hit [OF assms] obtain v' b
    where v': "v' \<in> set (create_name_variants img_name)" and b: "map_of name_to_id v' = Some b"
      and e: "exact_tier iter img_name name_to_id = Some b"
    by blast
  from e have m: "match_image_to_entity iter img_name name_to_id = Some b"
    by (simp add: match_image_to_entity_def)
  with v' b e show ?thesis by auto
qed

theorem exact_tier_priority_witness:
  "enumerates id \<and> ''anvil'' \<in> set (create_name_variants ''Anvil icon'')
   \<and> map_of [(''anvil icon x'', ''other''), (''anvil'', ''anvil'')] ''anvil'' = Some ''anvil''
   \<and> weak_tier ''Anvil icon'' [(''anvil icon x'', ''other''), (''anvil'', ''anvil'')] = Some ''other''
   \<and> match_image_to_entity id ''Anvil icon'' [(''anvil icon x'', ''other''), (''anvil'', ''anvil'')]
       = Some ''anvil''"
proof -
  let ?idx = "[(''anvil icon x'', ''other''), (''anvil'', ''anvil'')]"
  have h1: "enumerates id" by (simp add: enumerates_def)
  have vs: "create_name_variants ''Anvil icon'' = [''anvil'', ''anvil_icon'', ''anvil icon'']"
    by code_simp
  have h2: "''anvil'' \<in> set (create_name_variants ''Anvil icon'')" by (simp add: vs)
  have h3: "map_of ?idx ''anvil'' = Some ''anvil''" by simp
  have h4: "\<forall>v' \<in> set (create_name_variants ''Anvil icon''). \<forall>b. map_of ?idx v' = Some b \<longrightarrow> b = ''anvil''"
    by (simp add: vs)
  have h5: "weak_tier ''Anvil icon'' ?idx = Some ''other''"
    by code_simp
  from exact_tier_priority [OF h1 h2 h3] h4
  have "match_image_to_entity id ''Anvil icon'' ?idx = Some ''anvil''" by blast
  with h1 h2 h3 h5 show ?thesis by blast
qed

section \<open>Properties of the resolution pass\<close>




lemma match_loop_skips_matched:
  assumes "match_image_to_entity iter img_name idx = Some eid" and "eid \<in> set (matched p)"
  shows "match_loop net iter idx ((img_name, img_url) # rest) p = match_loop net iter idx rest p"
  using assms by simp




section \<open>Properties of the downloads, of the whole run and of the sync\<close>

lemma download_image_requests:
  "requests (snd (download_image net url name s)) = requests s @ [Download url name]"
  by (simp add: download_image_def split: option.splits)

lemma match_image_to_entity_in_index:
  assumes "match_image_to_entity iter img_name idx = Some eid"
  shows "eid \<in> snd ` set idx"
proof (cases "exact_tier iter img_name idx")
  case None
  with assms have "weak_tier img_name idx = Some eid" by (simp add: match_image_to_entity_def)
  then obtain item where "find (weak_hit (normalize_name img_name)) idx = Some item" "snd item = eid"
    by (auto simp: weak_tier_def)
  then show ?thesis by (auto simp: find_Some_iff)
next
  case (Some b)
  with assms have "b = eid" by (simp add: match_image_to_entity_def)
  with Some obtain v where "map_of idx v = Some eid"
    by (auto simp: exact_tier_def split: option.splits)
  then have "(v, eid) \<in> set idx" by (rule map_of_SomeD)
  then show ?thesis by force
qed

lemma match_loop_requests:
  "\<exists>new. requests (world (match_loop net iter idx cs p)) = requests (world p) @ new
     \<and> (\<forall>r \<in> set new. \<exists>eid \<in> snd ` set idx. issued_for title eid r)"
proof (induction cs arbitrary: p)
  case Nil
  show ?case by simp
next
  case (Cons c cs)
  obtain img_name img_url where c: "c = (img_name, img_url)" by (cases c)
  show ?case
  proof (cases "match_image_to_entity iter img_name idx")
    case None
    then show ?thesis unfolding c using Cons.IH [of p] by simp
  next
    case (Some eid)
    then have mem: "eid \<in> snd ` set idx" by (rule match_image_to_entity_in_index)
    let ?d = "download_image net img_url (save_name exts_v2 eid img_url) (world p)"
    show ?thesis
    proof (cases "eid \<noteq> [] \<and> eid \<notin> set (matched p)")
      case False
      then show ?thesis unfolding c using Some Cons.IH [of p] by auto
    next
      case True
      define q where "q = (if fst ?d
          then p\<lparr>world := snd ?d, downloaded := downloaded p + 1, matched := matched p @ [eid],
                 assignments := assignments p @ [((img_name, img_url), eid)]\<rparr>
          else p\<lparr>world := snd ?d\<rparr>)"
      have step: "match_loop net iter idx (c # cs) p = match_loop net iter idx cs q"
        using Some True unfolding c q_def by (auto split: prod.splits bool.splits)
      have wq: "requests (world q) = requests (world p) @ [Download img_url (save_name exts_v2 eid img_url)]"
        by (simp add: q_def download_image_requests)
      from Cons.IH [of q] obtain new where new:
        "requests (world (match_loop net iter idx cs q)) = requests (world q) @ new"
        "\<forall>r \<in> set new. \<exists>eid \<in> snd ` set idx. issued_for title eid r"
        by blast
      have "issued_for title eid (Download img_url (save_name exts_v2 eid img_url))"
        by (simp add: issued_for_def)
      with mem new show ?thesis
        unfolding step wq
        by (intro exI [of _ "Download img_url (save_name exts_v2 eid img_url) # new"]) auto
    qed
  qed
qed

lemma page_image_loop_requests:
  "\<exists>new. requests (snd (page_image_loop net eid cs s)) = requests s @ new
     \<and> (\<forall>r \<in> set new. issued_for title eid r)"
proof (induction cs arbitrary: s)
  case Nil
  show ?case by simp
next
  case (Cons c cs)
  obtain img_name img_url where c: "c = (img_name, img_url)" by (cases c)
  let ?d = "download_image net img_url (save_name exts_v2 eid img_url) s"
  have i: "issued_for title eid (Download img_url (save_name exts_v2 eid img_url))"
    by (simp add: issued_for_def)
  show ?case
  proof (cases "contains ''icon'' (lower img_url) \<and> contains ''32'' img_url")
    case True
    then show ?thesis unfolding c using Cons.IH [of s] by simp
  next
    case skip: False
    show ?thesis
    proof (cases "fst ?d")
      case True
      then have "page_image_loop net eid (c # cs) s = (True, snd ?d)"
        unfolding c using skip by (auto split: prod.splits bool.splits)
      then show ?thesis using i
        by (intro exI [of _ "[Download img_url (save_name exts_v2 eid img_url)]"])
           (simp add: download_image_requests)
    next
      case False
      then have step: "page_image_loop net eid (c # cs) s = page_image_loop net eid cs (snd ?d)"
        unfolding c using skip by (auto split: prod.splits bool.splits)
      from Cons.IH [of "snd ?d"] obtain new where
        "requests (snd (page_image_loop net eid cs (snd ?d))) = requests (snd ?d) @ new"
        "\<forall>r \<in> set new. issued_for title eid r" by blast
      then show ?thesis unfolding step using i
        by (intro exI [of _ "Download img_url (save_name exts_v2 eid img_url) # new"])
           (simp add: download_image_requests)
    qed
  qed
qed

lemma fallback_loop_requests:
  "\<exists>new. requests (world (fallback_loop net parse title eids p)) = requests (world p) @ new
     \<and> (\<forall>r \<in> set new. \<exists>eid \<in> set eids. issued_for title eid r)"
proof (induction eids arbitrary: p)
  case Nil
  show ?case by simp
next
  case (Cons eid eids)
  let ?html = "net (length (requests (world p))) (page_url title eid)"
  let ?s = "(world p)\<lparr>requests := requests (world p) @ [Fetch (page_url title eid)]\<rparr>"
  let ?l = "page_image_loop net eid (parse (the ?html)) ?s"
  define q where "q = (if truthy ?html
       then (if fst ?l then p\<lparr>world := snd ?l, downloaded := downloaded p + 1,
                               matched := matched p @ [eid]\<rparr>
             else p\<lparr>world := snd ?l\<rparr>)
       else p\<lparr>world := ?s\<rparr>)"
  have step: "fallback_loop net parse title (eid # eids) p = fallback_loop net parse title eids q"
    unfolding q_def by (auto simp: fetch_page_def split: prod.splits bool.splits)
  from page_image_loop_requests [of net eid "parse (the ?html)" ?s title] obtain mid where mid:
    "requests (snd ?l) = requests ?s @ mid" "\<forall>r \<in> set mid. issued_for title eid r" by blast
  have "\<exists>mid'. requests (world q) = requests (world p) @ Fetch (page_url title eid) # mid'
           \<and> (\<forall>r \<in> set mid'. issued_for title eid r)"
  proof (cases "truthy ?html")
    case True
    then show ?thesis using mid by (intro exI [of _ mid]) (simp add: q_def)
  next
    case False
    then show ?thesis by (intro exI [of _ "[]"]) (simp add: q_def)
  qed
  then obtain mid' where wq: "requests (world q) = requests (world p) @ Fetch (page_url title eid) # mid'"
    and mid': "\<forall>r \<in> set mid'. issued_for title eid r" by blast
  from Cons.IH [of q] obtain new where new:
    "requests (world (fallback_loop net parse title eids q)) = requests (world q) @ new"
    "\<forall>r \<in> set new. \<exists>eid \<in> set eids. issued_for title eid r" by blast
  have "issued_for title eid (Fetch (page_url title eid))" by (simp add: issued_for_def)
  with mid' new show ?case
    unfolding step wq
    by (intro exI [of _ "Fetch (page_url title eid) # mid' @ new"]) auto
qed

lemma insert_variants_values:
  "snd ` set (insert_variants eid vs idx) \<subseteq> insert eid (snd ` set idx)"
proof (induction vs arbitrary: idx)
  case Nil
  show ?case by auto
next
  case (Cons v vs)
  show ?case
  proof (cases "v \<noteq> [] \<and> v \<notin> set (map fst idx)")
    case True
    then have "insert_variants eid (v # vs) idx = insert_variants eid vs (idx @ [(v, eid)])"
      by simp
    moreover have "snd ` set (insert_variants eid vs (idx @ [(v, eid)]))
        \<subseteq> insert eid (snd ` set (idx @ [(v, eid)]))" by (rule Cons.IH)
    moreover have "insert eid (snd ` set (idx @ [(v, eid)])) = insert eid (snd ` set idx)"
      by auto
    ultimately show ?thesis by simp
  next
    case False
    then have "insert_variants eid (v # vs) idx = insert_variants eid vs idx" by auto
    then show ?thesis using Cons.IH [of idx] by simp
  qed
qed

lemma load_loop_values:
  "snd ` set idx \<subseteq> set ms \<Longrightarrow>
   snd ` set (fst (load_loop iter existing es (idx, ms))) \<subseteq> set (snd (load_loop iter existing es (idx, ms)))"
proof (induction es arbitrary: idx ms)
  case Nil
  then show ?case by simp
next
  case (Cons e es)
  show ?case
  proof (cases "get_str ''id'' e \<in> set existing")
    case True
    then show ?thesis using Cons.IH [OF Cons.prems] by simp
  next
    case False
    have "snd ` set (insert_variants (get_str ''id'' e) (iter (entity_variants e)) idx)
            \<subseteq> set (ms @ [get_str ''id'' e])"
      using insert_variants_values [of "get_str ''id'' e" "iter (entity_variants e)" idx] Cons.prems
      by auto
    from Cons.IH [OF this] False show ?thesis by simp
  qed
qed

lemma load_entities_values:
  "snd ` set (fst (load_entities iter catalog img_dir)) \<subseteq> set (snd (load_entities iter catalog img_dir))"
  using load_loop_values [of "[]" "[]"]
  by (auto simp: load_entities_def split: option.splits)

lemma load_entities_missing_not_existing:
  "eid \<in> set (snd (load_entities iter catalog img_dir)) \<Longrightarrow> eid \<notin> set (existing_stems img_dir)"
  by (auto simp: load_entities_def load_loop_missing split: option.splits)

lemma scrape_entity_type_requests:
  "\<exists>new. requests (snd (scrape_entity_type net iter parse title wiki_path catalog s)) = requests s @ new
     \<and> (\<forall>r \<in> set new. r = Fetch (base_url @ wiki_path)
            \<or> (\<exists>eid. eid \<notin> set (map stem (map fst (files s))) \<and> issued_for title eid r))"
proof -
  obtain idx missing where le: "load_entities iter catalog (Some (map fst (files s))) = (idx, missing)"
    by (cases "load_entities iter catalog (Some (map fst (files s)))")
  have vals: "snd ` set idx \<subseteq> set missing"
    using load_entities_values [of iter catalog "Some (map fst (files s))"] le by simp
  have miss: "\<And>eid. eid \<in> set missing \<Longrightarrow> eid \<notin> set (map stem (map fst (files s)))"
    using load_entities_missing_not_existing [of _ iter catalog "Some (map fst (files s))"] le
    by (simp add: existing_stems_def)
  let ?html = "net (length (requests s)) (base_url @ wiki_path)"
  let ?s1 = "s\<lparr>requests := requests s @ [Fetch (base_url @ wiki_path)]\<rparr>"
  show ?thesis
  proof (cases "missing = []")
    case True
    then show ?thesis using le by (simp add: scrape_entity_type_def)
  next
    case ne: False
    show ?thesis
    proof (cases "truthy ?html")
      case False
      then have "snd (scrape_entity_type net iter parse title wiki_path catalog s) = ?s1"
        using le ne by (simp add: scrape_entity_type_def fetch_page_def)
      then show ?thesis by (intro exI [of _ "[Fetch (base_url @ wiki_path)]"]) simp
    next
      case True
      let ?p = "match_loop net iter idx (parse (the ?html)) (start_pass ?s1)"
      let ?still = "filter (\<lambda>eid. eid \<notin> set (matched ?p)) missing"
      let ?p' = "if ?still \<noteq> [] \<and> length ?still \<le> 30
                 then fallback_loop net parse title ?still ?p else ?p"
      have res: "snd (scrape_entity_type net iter parse title wiki_path catalog s) = world ?p'"
        using le ne True by (simp add: scrape_entity_type_def fetch_page_def Let_def)
      from match_loop_requests [of net iter idx "parse (the ?html)" "start_pass ?s1" title]
      obtain n1 where n1: "requests (world ?p) = requests ?s1 @ n1"
        "\<forall>r \<in> set n1. \<exists>eid \<in> snd ` set idx. issued_for title eid r"
        by (auto simp: start_pass_def)
      have "\<exists>n2. requests (world ?p') = requests (world ?p) @ n2
              \<and> (\<forall>r \<in> set n2. \<exists>eid \<in> set missing. issued_for title eid r)"
      proof (cases "?still \<noteq> [] \<and> length ?still \<le> 30")
        case True
        from fallback_loop_requests [of net parse title ?still ?p] obtain n2 where
          "requests (world (fallback_loop net parse title ?still ?p)) = requests (world ?p) @ n2"
          "\<forall>r \<in> set n2. \<exists>eid \<in> set ?still. issued_for title eid r" by blast
        with True show ?thesis by (intro exI [of _ n2]) auto
      next
        case False
        then show ?thesis by (intro exI [of _ "[]"]) auto
      qed
      then obtain n2 where n2: "requests (world ?p') = requests (world ?p) @ n2"
        "\<forall>r \<in> set n2. \<exists>eid \<in> set missing. issued_for title eid r" by blast
      have "requests (world ?p') = requests s @ (Fetch (base_url @ wiki_path) # n1 @ n2)"
        using n1(1) n2(1) by simp
      moreover have "\<forall>r \<in> set (Fetch (base_url @ wiki_path) # n1 @ n2).
          r = Fetch (base_url @ wiki_path)
          \<or> (\<exists>eid. eid \<notin> set (map stem (map fst (files s))) \<and> issued_for title eid r)"
      proof
        fix r assume "r \<in> set (Fetch (base_url @ wiki_path) # n1 @ n2)"
        then consider "r = Fetch (base_url @ wiki_path)" | "r \<in> set n1" | "r \<in> set n2"
          by auto
        then show "r = Fetch (base_url @ wiki_path)
          \<or> (\<exists>eid. eid \<notin> set (map stem (map fst (files s))) \<and> issued_for title eid r)"
        proof cases
          case 1
          then show ?thesis by simp
        next
          case 2
          with n1(2) obtain eid where "eid \<in> snd ` set idx" "issued_for title eid r" by blast
          with vals miss show ?thesis by blast
        next
          case 3
          with n2(2) obtain eid where "eid \<in> set missing" "issued_for title eid r" by blast
          with miss show ?thesis by blast
        qed
      qed
      ultimately show ?thesis unfolding res by blast
    qed
  qed
qed

lemma download_image_wiki_gate:
  assumes "net (length (requests s)) url = Some data"
  shows "(length data < 500 \<or> length data = 5320 \<longrightarrow>
            fst (download_image_wiki net url name s) = False
            \<and> files (snd (download_image_wiki net url name s)) = files s)
         \<and> (\<not> (length data < 500 \<or> length data = 5320) \<longrightarrow>
            fst (download_image_wiki net url name s) = True
            \<and> files (snd (download_image_wiki net url name s)) = AList.update name data (files s))"
  using assms by (simp add: download_image_wiki_def)

text \<open>
  Claim C1 (a payload under 500 bytes, or of exactly 5320 bytes, is never written) holds
  for \<open>download_image\<close> of scrape-megabonk-wiki.py (\<open>download_image_wiki_gate\<close>) and fails
  for \<open>download_image\<close> of fetch-missing-images.py, which has no check: a body of 100
  bytes and a body of 5320 bytes are both written, and the call returns \<open>True\<close>.
\<close>

theorem download_image_unvalidated:
  "download_image tiny_net ''u'' ''anvil.png'' no_files
     = (True, \<lparr>requests = [Download ''u'' ''anvil.png''],
               files = [(''anvil.png'', replicate 100 (CHR ''x''))]\<rparr>)
   \<and> download_image logo_net ''u'' ''anvil.png'' no_files
     = (True, \<lparr>requests = [Download ''u'' ''anvil.png''],
               files = [(''anvil.png'', replicate 5320 (CHR ''x''))]\<rparr>)
   \<and> download_image_wiki tiny_net ''u'' ''anvil.png'' no_files
     = (False, \<lparr>requests = [Download ''u'' ''anvil.png''], files = []\<rparr>)
   \<and> download_image_wiki logo_net ''u'' ''anvil.png'' no_files
     = (False, \<lparr>requests = [Download ''u'' ''anvil.png''], files = []\<rparr>)"
  by (simp add: download_image_def download_image_wiki_def tiny_net_def logo_net_def no_files_def)

lemma find_snoc:
  "find P (xs @ [x]) = (case find P xs of Some y \<Rightarrow> Some y | None \<Rightarrow> if P x then Some x else None)"
  by (induction xs) auto

lemma fold_update_map_of:
  "map_of (fold (\<lambda>name images. AList.update (f name) (g name) images) names acc) k =
     (case find (\<lambda>name. f name = k) (rev names) of
        Some name \<Rightarrow> Some (g name)
      | None \<Rightarrow> map_of acc k)"
proof (induction names arbitrary: acc)
  case Nil
  show ?case by simp
next
  case (Cons n ns)
  show ?case
    by (simp add: Cons.IH find_snoc update_conv' split: option.splits)
qed

lemma available_images_map_of:
  "map_of (available_images entity_type names) k =
     map_option (\<lambda>name. ''images/'' @ entity_type @ ''/'' @ name)
       (find (\<lambda>name. stem name = k) (rev names))"
  unfolding available_images_def
  by (simp add: fold_update_map_of split: option.splits)

lemma update_json_file_sync:
  assumes "i < length entities"
  shows "\<exists>entities'. fst (update_json_file entity_type (Some entities) (Some names)) = Some entities'
           \<and> map_of (entities' ! i) ''image'' =
               map_option (\<lambda>name. JStr (''images/'' @ entity_type @ ''/'' @ name))
                 (find (\<lambda>name. stem name = get_str ''id'' (entities ! i)) (rev names))"
  using assms
  by (simp add: update_json_file_def get_available_images_def set_or_clear_image_def
      available_images_map_of update_conv' delete_conv' split: option.splits)

lemma update_json_file_no_directory:
  assumes "i < length entities"
  shows "\<exists>entities'. fst (update_json_file entity_type (Some entities) None) = Some entities'
           \<and> map_of (entities' ! i) ''image'' = None"
  using assms
  by (simp add: update_json_file_def get_available_images_def set_or_clear_image_def delete_conv')

text \<open>
  Claim C7 (after the sync an entity has the path of the file with its stem, and no image
  reference when there is no such file) holds for \<open>update_json_file\<close> of
  update-json-images.py (\<open>update_json_file_sync\<close>, \<open>update_json_file_no_directory\<close>) and
  fails for the sync at the end of \<open>main\<close> in fetch-missing-images.py, whose loop has no
  \<open>else\<close> branch: the entity \<open>ghost\<close> keeps the reference \<open>images/items/ghost.png\<close>
  although the directory holds no file with that stem. \<open>update_json_file\<close> clears it.
\<close>

theorem update_json_after_fetch_keeps_stale_image:
  "existing_stems (Some [''anvil.png'']) = [''anvil'']
   \<and> update_json_after_fetch 1 ''items'' (Some [stale_entity, anvil_entity]) (Some [''anvil.png''])
       = Inr (Some [stale_entity, anvil_entity @ [(''image'', JStr ''images/items/anvil.png'')]])
   \<and> map_of stale_entity ''image'' = Some (JStr ''images/items/ghost.png'')
   \<and> fst (update_json_file ''items'' (Some [stale_entity, anvil_entity]) (Some [''anvil.png'']))
       = Some [AList.delete ''image'' stale_entity,
               anvil_entity @ [(''image'', JStr ''images/items/anvil.png'')]]"
  by code_simp

lemma download_image_files:
  "fst ` set (files s) \<subseteq> fst ` set (files (snd (download_image net url name s)))"
  by (auto simp: download_image_def dom_update split: option.splits)

lemma first_download_files:
  "fst ` set (files s) \<subseteq> fst ` set (files (snd (first_download net eid ok urls s)))"
proof (induction urls arbitrary: s)
  case Nil
  show ?case by simp
next
  case (Cons u urls)
  let ?d = "download_image net u (save_name exts_v2 eid u) s"
  have d: "fst ` set (files s) \<subseteq> fst ` set (files (snd ?d))" by (rule download_image_files)
  show ?case
  proof (cases "ok u")
    case False
    then show ?thesis using Cons.IH [of s] by simp
  next
    case True
    show ?thesis
    proof (cases "fst ?d")
      case True
      with \<open>ok u\<close> have "first_download net eid ok (u # urls) s = (True, snd ?d)"
        by (auto split: prod.splits bool.splits)
      with d show ?thesis by simp
    next
      case False
      with \<open>ok u\<close> have "first_download net eid ok (u # urls) s = first_download net eid ok urls (snd ?d)"
        by (auto split: prod.splits bool.splits)
      with d Cons.IH [of "snd ?d"] show ?thesis by auto
    qed
  qed
qed

lemma file_page_files:
  "fst ` set (files s) \<subseteq> fst ` set (files (snd (file_page net parse eid ok url s)))"
  using first_download_files [of "s\<lparr>requests := requests s @ [Fetch url]\<rparr>" net eid ok]
  by (auto simp: file_page_def fetch_page_def)

lemma try_fetch_from_wiki_files:
  "fst ` set (files s) \<subseteq> fst ` set (files (snd (try_fetch_from_wiki net parse eid pages s)))"
proof (induction pages arbitrary: s)
  case Nil
  show ?case by simp
next
  case (Cons page pages)
  let ?url = "base_url @ ''/wiki/'' @ page"
  let ?html = "net (length (requests s)) ?url"
  let ?s1 = "s\<lparr>requests := requests s @ [Fetch ?url]\<rparr>"
  let ?f = "first_download net eid (\<lambda>img_url. img_url \<noteq> []) (parse (the ?html)) ?s1"
  have f: "fst ` set (files s) \<subseteq> fst ` set (files (snd ?f))"
    using first_download_files [of ?s1 net eid "\<lambda>img_url. img_url \<noteq> []" "parse (the ?html)"] by simp
  show ?case
  proof (cases "truthy ?html")
    case False
    then show ?thesis using Cons.IH [of ?s1] by (simp add: fetch_page_def)
  next
    case True
    show ?thesis
    proof (cases "fst ?f")
      case True
      with \<open>truthy ?html\<close> have "try_fetch_from_wiki net parse eid (page # pages) s = (True, snd ?f)"
        by (auto simp: fetch_page_def split: prod.splits bool.splits)
      with f show ?thesis by simp
    next
      case False
      with \<open>truthy ?html\<close>
      have "try_fetch_from_wiki net parse eid (page # pages) s
              = try_fetch_from_wiki net parse eid pages (snd ?f)"
        by (auto simp: fetch_page_def split: prod.splits bool.splits)
      with f Cons.IH [of "snd ?f"] show ?thesis by auto
    qed
  qed
qed

lemma gallery_loop_files:
  "fst ` set (files s) \<subseteq> fst ` set (files (snd (gallery_loop net parse eid terms s)))"
proof (induction terms arbitrary: s)
  case Nil
  show ?case by simp
next
  case (Cons t terms)
  let ?a = "file_page net parse eid (\<lambda>img_url. contains (lower t) (lower img_url))
              (base_url @ ''/wiki/File:'' @ t @ ''.png'') s"
  let ?b = "file_page net parse eid (\<lambda>img_url. True)
              (base_url @ ''/wiki/File:'' @ t @ ''.jpg'') (snd ?a)"
  have a: "fst ` set (files s) \<subseteq> fst ` set (files (snd ?a))" by (rule file_page_files)
  have b: "fst ` set (files (snd ?a)) \<subseteq> fst ` set (files (snd ?b))" by (rule file_page_files)
  consider "fst ?a" | "\<not> fst ?a" "fst ?b" | "\<not> fst ?a" "\<not> fst ?b" by blast
  then show ?case
  proof cases
    case 1
    then have "gallery_loop net parse eid (t # terms) s = (True, snd ?a)"
      by (auto split: prod.splits bool.splits)
    with a show ?thesis by simp
  next
    case 2
    then have "gallery_loop net parse eid (t # terms) s = (True, snd ?b)"
      by (auto split: prod.splits bool.splits)
    with a b show ?thesis by auto
  next
    case 3
    then have "gallery_loop net parse eid (t # terms) s = gallery_loop net parse eid terms (snd ?b)"
      by (auto split: prod.splits bool.splits)
    with a b Cons.IH [of "snd ?b"] show ?thesis by auto
  qed
qed

lemma glob_existing_mono:
  "fst ` set (files s) \<subseteq> fst ` set (files s') \<Longrightarrow> glob_existing eid s \<Longrightarrow> glob_existing eid s'"
  unfolding glob_existing_def set_map by blast

lemma missing_loop_skips_existing:
  assumes "glob_existing eid s"
  shows "missing_loop net parse (earlier @ (eid, pages) # later) found s
         = missing_loop net parse (earlier @ later) found s"
  using assms
proof (induction earlier arbitrary: found s)
  case Nil
  then show ?case by simp
next
  case (Cons x earlier)
  obtain e ps where x: "x = (e, ps)" by (cases x)
  let ?t = "try_fetch_from_wiki net parse e ps s"
  have t: "glob_existing eid (snd ?t)"
    using try_fetch_from_wiki_files Cons.prems by (rule glob_existing_mono)
  show ?case
  proof (cases "glob_existing e s")
    case True
    then show ?thesis unfolding x using Cons.IH [OF Cons.prems] by simp
  next
    case skip: False
    show ?thesis
    proof (cases "fst ?t")
      case True
      then show ?thesis unfolding x using skip Cons.IH [OF t]
        by (auto split: prod.splits bool.splits)
    next
      case nt: False
      show ?thesis
      proof (cases ps)
        case Nil
        then show ?thesis unfolding x using skip nt
          by (auto split: prod.splits bool.splits)
      next
        case (Cons first_page others)
        let ?g = "search_in_gallery net parse (replace ''_'' '' '' first_page) e (snd ?t)"
        have g: "glob_existing eid (snd ?g)"
          unfolding search_in_gallery_def using gallery_loop_files t by (rule glob_existing_mono)
        show ?thesis unfolding x using skip nt Cons Cons.IH [OF g]
          by (auto split: prod.splits bool.splits)
      qed
    qed
  qed
qed

text \<open>
  Claim C8 (an entity whose image is on disk when the run starts causes no request) holds
  for \<open>scrape_entity_type\<close> of scrape-images-v2.py, where every request but the fetch of the
  listing is issued for an entity without image (\<open>scrape_entity_type_requests\<close>), and for
  the loop of fetch-missing-images.py, which runs as if the entity were not in its table
  (\<open>missing_loop_skips_existing\<close>). It fails for \<open>scrape_entity_type\<close> of
  scrape-images.py, which never looks at the directory: with \<open>sword.png\<close> on disk it
  downloads the image of \<open>sword\<close> again and overwrites the file, where the second scraper
  issues no request at all.
\<close>

theorem scrape_entity_type_v1_downloads_existing:
  "existing_stems (Some (map fst (files sword_present))) = [''sword'']
   \<and> scrape_entity_type_v1 example_net example_parse ''/wiki/Weapons'' (Some sword_catalog)
         sword_present
       = (Inr 1,
          \<lparr>requests =
             [Fetch ''https://megabonk.fandom.com/wiki/Weapons'',
              Download ''https://static.wikia.nocookie.net/megabonk/images/a/ab/Sword.png/revision/latest''
                ''sword.png''],
           files = [(''sword.png'', ''data'')]\<rparr>)
   \<and> scrape_entity_type example_net id example_parse id ''/wiki/Weapons'' (Some sword_catalog)
         sword_present
       = (0, \<lparr>requests = [], files = [(''sword.png'', ''old image'')]\<rparr>)"
  by code_simp

text \<open>
  Claim C10: \<open>update_json_file\<close> keeps the number and the order of the entities, and in
  every entity all the fields but \<open>image\<close>, with their order and their values.
\<close>

theorem update_json_file_frame:
  "\<exists>entities'. fst (update_json_file entity_type (Some entities) img_dir) = Some entities'
     \<and> length entities' = length entities
     \<and> map (AList.delete ''image'') entities' = map (AList.delete ''image'') entities
     \<and> (\<forall>i < length entities. \<forall>key. key \<noteq> ''image'' \<longrightarrow>
           map_of (entities' ! i) key = map_of (entities ! i) key)"
  by (auto simp: update_json_file_def set_or_clear_image_def delete_update_same delete_idem
      update_conv' delete_conv' split: option.splits)

lemma example_sync_value:
  "fst (update_json_file ''items'' (Some [stale_entity, anvil_entity]) (Some [''anvil.png'']))
     = Some [[(''id'', JStr ''ghost''), (''name'', JStr ''Ghost''), (''tier'', JNum 3)],
             [(''id'', JStr ''anvil''), (''name'', JStr ''Anvil''), (''tier'', JNum 1),
              (''image'', JStr ''images/items/anvil.png'')]]"
  by code_simp

theorem update_json_file_frame_witness:
  "fst (update_json_file ''items'' (Some [stale_entity, anvil_entity]) (Some [''anvil.png'']))
     = Some [[(''id'', JStr ''ghost''), (''name'', JStr ''Ghost''), (''tier'', JNum 3)],
             [(''id'', JStr ''anvil''), (''name'', JStr ''Anvil''), (''tier'', JNum 1),
              (''image'', JStr ''images/items/anvil.png'')]]
   \<and> map (AList.delete ''image'')
         [[(''id'', JStr ''ghost''), (''name'', JStr ''Ghost''), (''tier'', JNum 3)],
          [(''id'', JStr ''anvil''), (''name'', JStr ''Anvil''), (''tier'', JNum 1),
           (''image'', JStr ''images/items/anvil.png'')]]
       = map (AList.delete ''image'') [stale_entity, anvil_entity]"
proof -
  let ?after = "[[(''id'', JStr ''ghost''), (''name'', JStr ''Ghost''), (''tier'', JNum 3)],
                 [(''id'', JStr ''anvil''), (''name'', JStr ''Anvil''), (''tier'', JNum 1),
                  (''image'', JStr ''images/items/anvil.png'')]]"
  from update_json_file_frame [of "''items''" "[stale_entity, anvil_entity]" "Some [''anvil.png'']"]
  obtain entities' where
    e: "fst (update_json_file ''items'' (Some [stale_entity, anvil_entity]) (Some [''anvil.png'']))
          = Some entities'"
    and m: "map (AList.delete ''image'') entities'
          = map (AList.delete ''image'') [stale_entity, anvil_entity]"
    by blast
  from e have "Some entities' = Some ?after" unfolding example_sync_value by (rule sym)
  then have "entities' = ?after" by (rule option.inject [THEN iffD1])
  with m have "map (AList.delete ''image'') ?after
      = map (AList.delete ''image'') [stale_entity, anvil_entity]" by (rule subst [rotated])
  with example_sync_value show ?thesis by (rule conjI)
qed

end
